theory Spec2Isabelle
  imports Main "HOL-Library.Word"
begin

section \<open>The predicate tree of \<open>filter_parser_util.h\<close>\<close>

text \<open>
  The class hierarchy \<open>Node<U>\<close> with its four final subclasses is a datatype; \<open>'l\<close> is the
  template parameter \<open>T\<close>, the label type.
\<close>

datatype 'l Node =
    OrNode "'l Node" "'l Node"
  | AndNode "'l Node" "'l Node"
  | NotNode "'l Node"
  | LabelNode 'l

text \<open>
  \<open>std::find(first, last, v)\<close>: the position of the first element equal to \<open>v\<close>, or the
  position of \<open>last\<close> (the length of the range) when there is none.
\<close>

fun std_find :: "'l list \<Rightarrow> 'l \<Rightarrow> nat" where
  "std_find [] v = 0"
| "std_find (x # xs) v = (if x = v then 0 else Suc (std_find xs v))"

fun check :: "'l Node \<Rightarrow> 'l list \<Rightarrow> bool" where
  "check (OrNode l r) labels = (if check l labels then True else check r labels)"
| "check (AndNode l r) labels = (if \<not> check l labels then False else check r labels)"
| "check (NotNode n) labels = (\<not> check n labels)"
| "check (LabelNode v) labels = (std_find labels v \<noteq> length labels)"

section \<open>Failures\<close>

text \<open>
  The ways in which construction does not return a tree. The first three are the exceptions
  the code can throw: \<open>std::logic_error\<close> with its message, and the two exceptions of the
  standard library (\<open>std::stoll\<close>, \<open>unordered_map::at\<close>). The last is not an exception:
  \<open>top()\<close> and \<open>pop()\<close> of an empty \<open>std::stack\<close> have undefined behaviour, and the code
  never tests the node stack before it reads it.
\<close>

datatype failure =
    Logic_error string
  | Invalid_argument
  | Out_of_range
  | Undefined_behaviour

section \<open>Tokenizer\<close>

definition is_blank :: "char \<Rightarrow> bool" where
  "is_blank c \<longleftrightarrow> c = CHR '' '' \<or> c = CHR 0x09"

definition is_op_char :: "char \<Rightarrow> bool" where
  "is_op_char c \<longleftrightarrow> c = CHR ''|'' \<or> c = CHR ''&'' \<or> c = CHR ''!'' \<or> c = CHR ''('' \<or> c = CHR '')''"

definition is_digit :: "char \<Rightarrow> bool" where
  "is_digit c \<longleftrightarrow> (48::nat) \<le> of_char c \<and> of_char c \<le> (57::nat)"

text \<open>
  The loop of \<open>parse_logic_expression\<close> over the characters, with its two locals
  \<open>tokens\<close> and \<open>cur_token\<close> passed along.
\<close>

fun tokenize_loop :: "string \<Rightarrow> string list \<Rightarrow> string \<Rightarrow> failure + (string list \<times> string)" where
  "tokenize_loop [] tokens cur_token = Inr (tokens, cur_token)"
| "tokenize_loop (c # cs) tokens cur_token =
     (if is_blank c then tokenize_loop cs tokens cur_token
      else if is_op_char c then
        (if cur_token \<noteq> [] then tokenize_loop cs (tokens @ [cur_token] @ [[c]]) []
         else tokenize_loop cs (tokens @ [[c]]) cur_token)
      else if is_digit c then tokenize_loop cs tokens (cur_token @ [c])
      else Inl (Logic_error ''Token is incorrect''))"

definition parse_logic_expression :: "string \<Rightarrow> failure + string list" where
  "parse_logic_expression logic_expr =
     (case tokenize_loop logic_expr [] [] of
        Inl e \<Rightarrow> Inl e
      | Inr (tokens, cur_token) \<Rightarrow>
          Inr (if cur_token \<noteq> [] then tokens @ [cur_token] else tokens))"

section \<open>Operators and precedence\<close>

definition operators :: "(string \<times> bool) list" where
  "operators = [(''|'', True), (''&'', True), (''!'', True), (''('', True), ('')'', True)]"

definition is_operator :: "string \<Rightarrow> bool" where
  "is_operator token \<longleftrightarrow> map_of operators token \<noteq> None"

definition precedence :: "(string \<times> int) list" where
  "precedence = [(''|'', 1), (''&'', 2), (''!'', 3)]"

text \<open>\<open>precedence.at(op)\<close> throws \<open>std::out_of_range\<close> for a key that is not in the table.\<close>

definition higher_precedence :: "string \<Rightarrow> string \<Rightarrow> failure + bool" where
  "higher_precedence op1 op2 =
     (case map_of precedence op1 of
        None \<Rightarrow> Inl Out_of_range
      | Some p1 \<Rightarrow>
          (case map_of precedence op2 of
             None \<Rightarrow> Inl Out_of_range
           | Some p2 \<Rightarrow> Inr (p1 \<ge> p2)))"

section \<open>Infix to postfix\<close>

text \<open>
  The operator stack is a list with its top at the head. Each of the three \<open>while\<close> loops of
  \<open>convert2rpn\<close> is a recursion on the stack; they return the output and the stack they leave.
\<close>

fun pop_until_open :: "string list \<Rightarrow> string list \<Rightarrow> string list \<times> string list" where
  "pop_until_open rpn_expr [] = (rpn_expr, [])"
| "pop_until_open rpn_expr (stack_top # oper_stack) =
     (if stack_top \<noteq> ''('' then pop_until_open (rpn_expr @ [stack_top]) oper_stack
      else (rpn_expr, stack_top # oper_stack))"

fun pop_higher :: "string \<Rightarrow> string list \<Rightarrow> string list \<Rightarrow> failure + (string list \<times> string list)" where
  "pop_higher token rpn_expr [] = Inr (rpn_expr, [])"
| "pop_higher token rpn_expr (stack_top # oper_stack) =
     (if stack_top \<noteq> ''('' then
        (case higher_precedence stack_top token of
           Inl e \<Rightarrow> Inl e
         | Inr True \<Rightarrow> pop_higher token (rpn_expr @ [stack_top]) oper_stack
         | Inr False \<Rightarrow> Inr (rpn_expr, stack_top # oper_stack))
      else Inr (rpn_expr, stack_top # oper_stack))"

fun drain :: "string list \<Rightarrow> string list \<Rightarrow> string list" where
  "drain rpn_expr [] = rpn_expr"
| "drain rpn_expr (token # oper_stack) = drain (rpn_expr @ [token]) oper_stack"

text \<open>The body of the \<open>for\<close> loop, for one token.\<close>

definition convert_token :: "string \<Rightarrow> string list \<Rightarrow> string list \<Rightarrow> failure + (string list \<times> string list)" where
  "convert_token token rpn_expr oper_stack =
     (if \<not> is_operator token then Inr (rpn_expr @ [token], oper_stack)
      else if token = ''('' then Inr (rpn_expr, token # oper_stack)
      else if token = '')'' then
        (case pop_until_open rpn_expr oper_stack of
           (rpn_expr', oper_stack') \<Rightarrow>
             (if oper_stack' \<noteq> [] \<and> hd oper_stack' = ''(''
              then Inr (rpn_expr', tl oper_stack')
              else Inr (rpn_expr', oper_stack')))
      else
        (case pop_higher token rpn_expr oper_stack of
           Inl e \<Rightarrow> Inl e
         | Inr (rpn_expr', oper_stack') \<Rightarrow> Inr (rpn_expr', token # oper_stack')))"

fun convert_loop :: "string list \<Rightarrow> string list \<Rightarrow> string list \<Rightarrow> failure + (string list \<times> string list)" where
  "convert_loop [] rpn_expr oper_stack = Inr (rpn_expr, oper_stack)"
| "convert_loop (token # oper_tokens) rpn_expr oper_stack =
     (case convert_token token rpn_expr oper_stack of
        Inl e \<Rightarrow> Inl e
      | Inr (rpn_expr', oper_stack') \<Rightarrow> convert_loop oper_tokens rpn_expr' oper_stack')"

definition convert2rpn :: "string list \<Rightarrow> failure + string list" where
  "convert2rpn oper_tokens =
     (case convert_loop oper_tokens [] [] of
        Inl e \<Rightarrow> Inl e
      | Inr (rpn_expr, oper_stack) \<Rightarrow> Inr (drain rpn_expr oper_stack))"

section \<open>Reading a literal\<close>

text \<open>
  \<open>std::stoll(op)\<close> of the standard library, in base 10: it skips leading white space, reads
  an optional sign and the longest run of digits, throws \<open>std::invalid_argument\<close> when there
  is no digit to read and \<open>std::out_of_range\<close> when the value is not a \<open>long long\<close>.
\<close>

definition isspace :: "char \<Rightarrow> bool" where
  "isspace c \<longleftrightarrow> c = CHR '' '' \<or> ((9::nat) \<le> of_char c \<and> of_char c \<le> (13::nat))"

fun decimal :: "nat \<Rightarrow> string \<Rightarrow> nat" where
  "decimal acc [] = acc"
| "decimal acc (c # cs) = decimal (10 * acc + (of_char c - 48)) cs"

definition LLONG_MAX :: int where
  "LLONG_MAX = 9223372036854775807"

definition LLONG_MIN :: int where
  "LLONG_MIN = - 9223372036854775808"

definition stoll :: "string \<Rightarrow> failure + int" where
  "stoll str =
     (let body = dropWhile isspace str;
          negative = (body \<noteq> [] \<and> hd body = CHR ''-'');
          unsigned = (if body \<noteq> [] \<and> (hd body = CHR ''-'' \<or> hd body = CHR ''+'') then tl body else body);
          digits = takeWhile is_digit unsigned
      in if digits = [] then Inl Invalid_argument
         else
           (let magnitude = int (decimal 0 digits);
                val = (if negative then - magnitude else magnitude)
            in if val < LLONG_MIN \<or> LLONG_MAX < val then Inl Out_of_range else Inr val))"

section \<open>Postfix to tree\<close>

text \<open>
  The node stack is a list with its top at the head. The header does not fix the label type
  \<open>T\<close>, so the conversion \<open>(T)val\<close> from \<open>long long\<close> is the parameter \<open>cast\<close>.
  Where the code reads \<open>res_nodes.top()\<close> of an empty stack, the model stops with
  \<open>Undefined_behaviour\<close>.
\<close>

fun rpn2tree_loop :: "(int \<Rightarrow> 'l) \<Rightarrow> string list \<Rightarrow> 'l Node list \<Rightarrow> failure + 'l Node list" where
  "rpn2tree_loop cast [] res_nodes = Inr res_nodes"
| "rpn2tree_loop cast (op # rpn) res_nodes =
     (if \<not> is_operator op then
        (case stoll op of
           Inl e \<Rightarrow> Inl e
         | Inr val \<Rightarrow> rpn2tree_loop cast rpn (LabelNode (cast val) # res_nodes))
      else if op = ''|'' then
        (case res_nodes of
           rhs # lhs # rest \<Rightarrow> rpn2tree_loop cast rpn (OrNode lhs rhs # rest)
         | _ \<Rightarrow> Inl Undefined_behaviour)
      else if op = ''&'' then
        (case res_nodes of
           rhs # lhs # rest \<Rightarrow> rpn2tree_loop cast rpn (AndNode lhs rhs # rest)
         | _ \<Rightarrow> Inl Undefined_behaviour)
      else
        (case res_nodes of
           sub_node # rest \<Rightarrow> rpn2tree_loop cast rpn (NotNode sub_node # rest)
         | [] \<Rightarrow> Inl Undefined_behaviour))"

definition rpn2tree :: "(int \<Rightarrow> 'l) \<Rightarrow> string list \<Rightarrow> failure + 'l Node" where
  "rpn2tree cast rpn =
     (case rpn2tree_loop cast rpn [] of
        Inl e \<Rightarrow> Inl e
      | Inr res_nodes \<Rightarrow>
          (if length res_nodes \<noteq> 1 then Inl (Logic_error ''Extra label'')
           else Inr (hd res_nodes)))"

section \<open>The public interface\<close>

text \<open>The constructor \<open>SyntaxTree<T>(str_logic_expr)\<close>: the result is the field \<open>root\<close>.\<close>

definition SyntaxTree :: "(int \<Rightarrow> 'l) \<Rightarrow> string \<Rightarrow> failure + 'l Node" where
  "SyntaxTree cast str_logic_expr =
     (case parse_logic_expression str_logic_expr of
        Inl e \<Rightarrow> Inl e
      | Inr tokens \<Rightarrow>
          (case convert2rpn tokens of
             Inl e \<Rightarrow> Inl e
           | Inr rpn \<Rightarrow> rpn2tree cast rpn))"

text \<open>Construction followed by one call of the member function \<open>check\<close>.\<close>

definition compile_check :: "(int \<Rightarrow> 'l) \<Rightarrow> string \<Rightarrow> 'l list \<Rightarrow> failure + bool" where
  "compile_check cast str_logic_expr labels =
     (case SyntaxTree cast str_logic_expr of
        Inl e \<Rightarrow> Inl e
      | Inr root \<Rightarrow> Inr (check root labels))"

text \<open>The conversion \<open>(T)val\<close> when \<open>T\<close> is an unsigned integer type of the width of \<open>'w\<close>.\<close>

definition unsigned_cast :: "int \<Rightarrow> 'w::len word" where
  "unsigned_cast val = word_of_int val"

section \<open>Notions of the specification\<close>

text \<open>The input with its spaces and tabs removed.\<close>

definition strip_blanks :: "string \<Rightarrow> string" where
  "strip_blanks s = filter (\<lambda>c. \<not> (c = CHR '' '' \<or> c = CHR 0x09)) s"

text \<open>
  The two shapes of a token: one operator or parenthesis character, or a nonempty run of
  decimal digits (\<open>LITERAL := digit+\<close>).
\<close>

definition operator_token :: "string \<Rightarrow> bool" where
  "operator_token t \<longleftrightarrow> t = ''|'' \<or> t = ''&'' \<or> t = ''!'' \<or> t = ''('' \<or> t = '')''"

definition literal_token :: "string \<Rightarrow> bool" where
  "literal_token t \<longleftrightarrow> t \<noteq> [] \<and> list_all is_digit t"

text \<open>
  No two literals are neighbours in a token sequence: every run of digits is then maximal in
  the concatenation of the tokens.
\<close>

fun no_adjacent_literals :: "string list \<Rightarrow> bool" where
  "no_adjacent_literals (a # b # ts) =
     (\<not> (literal_token a \<and> literal_token b) \<and> no_adjacent_literals (b # ts))"
| "no_adjacent_literals ts = True"

text \<open>
  The grammar of the specification, on token sequences:
  \<open>expr := term ('|' term)*\<close>, \<open>term := factor ('&' factor)*\<close>,
  \<open>factor := '!' factor | '(' expr ')' | LITERAL\<close>.
\<close>

inductive expr_tokens :: "string list \<Rightarrow> bool"
  and term_tokens :: "string list \<Rightarrow> bool"
  and factor_tokens :: "string list \<Rightarrow> bool" where
  literal: "literal_token t \<Longrightarrow> factor_tokens [t]"
| negation: "factor_tokens f \<Longrightarrow> factor_tokens (''!'' # f)"
| parenthesis: "expr_tokens e \<Longrightarrow> factor_tokens (''('' # e @ ['')''])"
| one_factor: "factor_tokens f \<Longrightarrow> term_tokens f"
| conjunction: "term_tokens t \<Longrightarrow> factor_tokens f \<Longrightarrow> term_tokens (t @ ''&'' # f)"
| one_term: "term_tokens t \<Longrightarrow> expr_tokens t"
| disjunction: "expr_tokens e \<Longrightarrow> term_tokens t \<Longrightarrow> expr_tokens (e @ ''|'' # t)"

text \<open>
  The text of a token sequence with blank strings \<open>gaps\<close> put before, between and after its
  tokens: the first gap before the first token, and so on; gaps that are left over follow
  the last token, and tokens that are left over follow each other directly.
\<close>

fun interleave :: "string list \<Rightarrow> string list \<Rightarrow> string" where
  "interleave gaps [] = concat gaps"
| "interleave [] (t # ts) = t @ interleave [] ts"
| "interleave (g # gaps) (t # ts) = g @ t @ interleave gaps ts"

definition blank_gaps :: "string list \<Rightarrow> bool" where
  "blank_gaps gaps \<longleftrightarrow> list_all (list_all is_blank) gaps"

text \<open>No \<open>!\<close> is directly followed by another \<open>!\<close>.\<close>

fun no_double_negation :: "string list \<Rightarrow> bool" where
  "no_double_negation (a # b # ts) =
     (\<not> (a = ''!'' \<and> b = ''!'') \<and> no_double_negation (b # ts))"
| "no_double_negation ts = True"

text \<open>Every literal of the sequence denotes a value that a \<open>long long\<close> holds.\<close>

definition literals_in_range :: "string list \<Rightarrow> bool" where
  "literals_in_range tokens \<longleftrightarrow>
     list_all (\<lambda>t. \<not> literal_token t \<or> int (decimal 0 t) \<le> LLONG_MAX) tokens"

section \<open>Auxiliary notions of the proofs\<close>

text \<open>The token sequence once the literal in progress is pushed.\<close>

definition with_pending :: "string list \<Rightarrow> string \<Rightarrow> string list" where
  "with_pending tokens cur_token = (if cur_token \<noteq> [] then tokens @ [cur_token] else tokens)"

text \<open>A postfix sequence that pushes exactly the node \<open>n\<close> on any node stack.\<close>

definition builds :: "(int \<Rightarrow> 'l) \<Rightarrow> string list \<Rightarrow> 'l Node \<Rightarrow> bool" where
  "builds cast rpn n \<longleftrightarrow> (\<forall>res_nodes. rpn2tree_loop cast rpn res_nodes = Inr (n # res_nodes))"

text \<open>
  The operator stack is empty, or its top is an opening parenthesis or one of the operators
  \<open>low\<close> (those of lower precedence than the operator that arrives).
\<close>

definition top_below :: "string set \<Rightarrow> string list \<Rightarrow> bool" where
  "top_below low oper_stack \<longleftrightarrow> oper_stack = [] \<or> hd oper_stack = ''('' \<or> hd oper_stack \<in> low"

text \<open>
  The converter, started on the tokens \<open>toks\<close> with a stack that satisfies \<open>pre\<close>, appends
  \<open>out\<close> to the output and leaves the operators \<open>ops\<close> on top of the stack, and \<open>out @ ops\<close>
  is a postfix form of the tree \<open>n\<close>.
\<close>

definition shunts ::
  "(int \<Rightarrow> 'l) \<Rightarrow> string list \<Rightarrow> (string list \<Rightarrow> bool) \<Rightarrow> string set \<Rightarrow> 'l Node \<Rightarrow> bool" where
  "shunts cast toks pre pending n \<longleftrightarrow>
     (\<exists>out ops. set ops \<subseteq> pending \<and> builds cast (out @ ops) n \<and>
        (\<forall>oper_stack rest rpn_expr. pre oper_stack \<longrightarrow>
           convert_loop (toks @ rest) rpn_expr oper_stack
             = convert_loop rest (rpn_expr @ out) (ops @ oper_stack)))"

text \<open>Every token has one of the two shapes, and no two literals are neighbours.\<close>

definition well_tokenized :: "string list \<Rightarrow> bool" where
  "well_tokenized tokens \<longleftrightarrow>
     list_all (\<lambda>t. operator_token t \<or> literal_token t) tokens \<and> no_adjacent_literals tokens"

section \<open>Evaluation on concrete inputs\<close>

lemmas eval_defs =
  SyntaxTree_def compile_check_def parse_logic_expression_def convert2rpn_def rpn2tree_def
  convert_token_def is_operator_def operators_def higher_precedence_def precedence_def
  is_blank_def is_op_char_def is_digit_def stoll_def isspace_def LLONG_MAX_def LLONG_MIN_def

section \<open>The evaluator\<close>

lemma std_find_end_iff: "std_find labels v \<noteq> length labels \<longleftrightarrow> v \<in> set labels"
proof (induction labels)
  case Nil
  show ?case by simp
next
  case (Cons x xs)
  show ?case
  proof (cases "x = v")
    case True
    then show ?thesis by simp
  next
    case False
    with Cons.IH show ?thesis by simp
  qed
qed

text \<open>
  C2. A leaf \<open>LabelNode v\<close> accepts a label collection exactly when \<open>v\<close> is one of its
  elements; membership in the set of elements does not see order or repetition.
\<close>

theorem label_check_iff_member: "check (LabelNode v) labels = (v \<in> set labels)"
  using std_find_end_iff [of labels v] by simp

section \<open>Operators without their operands\<close>

text \<open>
  C4. For \<open>&1\<close> the postfix form is \<open>1 &\<close>; the tree builder pops the only node as the right
  operand and then reads the top of the empty node stack. No exception is thrown there:
  the behaviour is undefined. The same holds for any operator met on an empty node stack.
\<close>

theorem missing_left_operand_undefined:
  "convert2rpn [''&'', ''1''] = Inr [''1'', ''&'']
   \<and> SyntaxTree cast ''&1'' = Inl Undefined_behaviour
   \<and> rpn2tree cast [''|''] = Inl Undefined_behaviour
   \<and> rpn2tree cast [''!''] = Inl Undefined_behaviour"
  by (simp add: eval_defs)

section \<open>Blank input\<close>

lemma tokenize_loop_blank:
  "\<forall>c \<in> set s. is_blank c \<Longrightarrow> tokenize_loop s tokens cur_token = Inr (tokens, cur_token)"
  by (induction s) simp_all

text \<open>
  C5. An expression made of spaces and tabs only (the empty string among them) is rejected:
  the node stack is empty at the end, its size is not 1, and the constructor throws
  \<open>std::logic_error\<close> with the message \<open>Extra label\<close>.
\<close>

theorem blank_expression_rejected:
  assumes "\<forall>c \<in> set s. c = CHR '' '' \<or> c = CHR 0x09"
  shows "SyntaxTree cast s = Inl (Logic_error ''Extra label'')"
proof -
  from assms have "\<forall>c \<in> set s. is_blank c"
    by (simp add: is_blank_def)
  then have "tokenize_loop s [] [] = Inr ([], [])"
    by (rule tokenize_loop_blank)
  then show ?thesis
    by (simp add: SyntaxTree_def parse_logic_expression_def convert2rpn_def rpn2tree_def)
qed

theorem blank_expression_rejected_witness:
  "SyntaxTree (unsigned_cast :: int \<Rightarrow> 32 word) [CHR '' '', CHR 0x09, CHR '' '']
       = Inl (Logic_error ''Extra label'')
   \<and> SyntaxTree (unsigned_cast :: int \<Rightarrow> 32 word) [] = Inl (Logic_error ''Extra label'')"
  using blank_expression_rejected [of "[CHR '' '', CHR 0x09, CHR '' '']" unsigned_cast]
    blank_expression_rejected [of "[]" unsigned_cast]
  by simp

section \<open>Unbalanced parentheses\<close>

lemma pop_until_open_no_open:
  "''('' \<notin> set oper_stack \<Longrightarrow> pop_until_open rpn_expr oper_stack = (rpn_expr @ oper_stack, [])"
  by (induction oper_stack arbitrary: rpn_expr) auto

text \<open>
  C7. A closing parenthesis that finds no opening parenthesis on the operator stack moves
  every operator of the stack to the output, leaves the stack empty and raises nothing;
  so \<open>1)\<close> is compiled, to the leaf for label 1.
\<close>

theorem unmatched_close_tolerated:
  "(''('' \<notin> set oper_stack \<longrightarrow>
      convert_token '')'' rpn_expr oper_stack = Inr (rpn_expr @ oper_stack, []))
   \<and> convert2rpn [''1'', '')''] = Inr [''1'']
   \<and> SyntaxTree cast ''1)'' = Inr (LabelNode (cast 1))"
  by (simp add: eval_defs pop_until_open_no_open)

theorem unmatched_close_tolerated_witness:
  "''('' \<notin> set [''&'', ''|'']
   \<and> convert_token '')'' [''1'', ''2'', ''3''] [''&'', ''|'']
       = Inr ([''1'', ''2'', ''3'', ''&'', ''|''], [])
   \<and> SyntaxTree (unsigned_cast :: int \<Rightarrow> 32 word) ''1)'' = Inr (LabelNode (unsigned_cast 1))"
proof -
  have no_open: "''('' \<notin> set [''&'', ''|'']"
    by simp
  with unmatched_close_tolerated [of "[''&'', ''|'']" "[''1'', ''2'', ''3'']" unsigned_cast]
  have "convert_token '')'' [''1'', ''2'', ''3''] [''&'', ''|'']
          = Inr ([''1'', ''2'', ''3''] @ [''&'', ''|''], [])
        \<and> SyntaxTree (unsigned_cast :: int \<Rightarrow> 32 word) ''1)'' = Inr (LabelNode (unsigned_cast 1))"
    by blast
  with no_open show ?thesis
    by simp
qed

text \<open>
  C9. An opening parenthesis that is still on the operator stack at the end of the input is
  drained to the output like any operator, and the tree builder takes it through its last
  branch, the one of \<open>!\<close>: it wraps the top node in a \<open>NotNode\<close>. So \<open>(1\<close> is compiled to
  the negation of label 1, which rejects the labels \<open>[1]\<close>.
\<close>

theorem stray_open_is_negation:
  "convert2rpn [''('', ''1''] = Inr [''1'', ''('']
   \<and> rpn2tree_loop cast (''('' # rpn) (sub_node # res_nodes)
       = rpn2tree_loop cast rpn (NotNode sub_node # res_nodes)
   \<and> SyntaxTree cast ''(1'' = Inr (NotNode (LabelNode (cast 1)))
   \<and> compile_check cast ''(1'' [cast 1] = Inr False"
  by (simp add: eval_defs)

section \<open>Repeated negation\<close>

text \<open>
  C8. For \<open>!!1\<close> the second \<open>!\<close> pops the first one, because its precedence is not lower
  (3 \<ge> 3); the postfix form is \<open>! 1 !\<close>, whose first \<open>!\<close> meets an empty node stack. The
  constructor does not return the tree of \<open>!(!1)\<close>: its behaviour is undefined.
\<close>

theorem double_negation_undefined:
  "convert2rpn [''!'', ''!'', ''1''] = Inr [''!'', ''1'', ''!'']
   \<and> SyntaxTree cast ''!!1'' = Inl Undefined_behaviour
   \<and> SyntaxTree cast ''!(!1)'' = Inr (NotNode (NotNode (LabelNode (cast 1))))"
  by (simp add: eval_defs)

section \<open>The tokenizer\<close>

lemma op_char_not_blank: "is_op_char c \<Longrightarrow> \<not> is_blank c"
  by (auto simp: is_op_char_def is_blank_def)

lemma digit_not_blank: "is_digit c \<Longrightarrow> \<not> is_blank c"
  by (auto simp: is_digit_def is_blank_def)

lemma op_char_not_digit: "is_op_char c \<Longrightarrow> \<not> is_digit c"
  by (auto simp: is_op_char_def is_digit_def)

lemma operator_token_char: "is_op_char c \<Longrightarrow> operator_token [c]"
  by (auto simp: is_op_char_def operator_token_def)

lemma operator_not_literal: "operator_token t \<Longrightarrow> \<not> literal_token t"
  by (auto simp: operator_token_def literal_token_def is_digit_def)

lemma strip_blanks_Cons:
  "strip_blanks (c # cs) = (if is_blank c then strip_blanks cs else c # strip_blanks cs)"
  by (simp add: strip_blanks_def is_blank_def)

lemma strip_blanks_append: "strip_blanks (a @ b) = strip_blanks a @ strip_blanks b"
  by (simp add: strip_blanks_def)

lemma no_adjacent_literals_snoc:
  "no_adjacent_literals (ts @ [a]) \<longleftrightarrow>
     no_adjacent_literals ts \<and> (ts = [] \<or> \<not> (literal_token (last ts) \<and> literal_token a))"
  by (induction ts rule: no_adjacent_literals.induct) auto

lemma tokenize_loop_invariant:
  assumes "list_all (\<lambda>c. is_blank c \<or> is_op_char c \<or> is_digit c) s"
    and "list_all is_digit cur"
    and "well_tokenized acc"
    and "acc = [] \<or> operator_token (last acc)"
  shows "\<exists>acc' cur'. tokenize_loop s acc cur = Inr (acc', cur')
           \<and> list_all is_digit cur' \<and> well_tokenized acc'
           \<and> (acc' = [] \<or> operator_token (last acc'))
           \<and> concat acc' @ cur' = concat acc @ cur @ strip_blanks s"
  using assms
proof (induction s arbitrary: acc cur)
  case Nil
  then show ?case by (simp add: strip_blanks_def)
next
  case (Cons c cs)
  from Cons.prems(1) have rest: "list_all (\<lambda>c. is_blank c \<or> is_op_char c \<or> is_digit c) cs"
    and c: "is_blank c \<or> is_op_char c \<or> is_digit c"
    by simp_all
  show ?case
  proof (cases "is_blank c")
    case True
    with Cons.IH [OF rest Cons.prems(2-4)] show ?thesis
      by (simp add: strip_blanks_Cons)
  next
    case nb: False
    show ?thesis
    proof (cases "is_op_char c")
      case op: True
      show ?thesis
      proof (cases "cur = []")
        case True
        have wt: "well_tokenized (acc @ [[c]])"
          using Cons.prems(3) op
          by (simp add: well_tokenized_def no_adjacent_literals_snoc operator_token_char
              operator_not_literal)
        have "list_all is_digit []" by simp
        from Cons.IH [OF rest this wt] op nb True show ?thesis
          by (simp add: strip_blanks_Cons operator_token_char)
      next
        case False
        with Cons.prems(2) have lit: "literal_token cur"
          by (simp add: literal_token_def)
        have "no_adjacent_literals (acc @ [cur])"
          using Cons.prems(3,4)
          by (auto simp: well_tokenized_def no_adjacent_literals_snoc operator_not_literal)
        then have "no_adjacent_literals ((acc @ [cur]) @ [[c]])"
          using op unfolding no_adjacent_literals_snoc [of "acc @ [cur]" "[c]"]
          by (simp add: operator_token_char operator_not_literal)
        then have wt: "well_tokenized (acc @ [cur] @ [[c]])"
          using Cons.prems(3) op lit
          by (simp add: well_tokenized_def operator_token_char)
        have "list_all is_digit []" by simp
        from Cons.IH [OF rest this wt] op nb False show ?thesis
          by (simp add: strip_blanks_Cons operator_token_char)
      qed
    next
      case False
      with c nb have dg: "is_digit c" by simp
      with Cons.prems(2) have "list_all is_digit (cur @ [c])" by simp
      from Cons.IH [OF rest this Cons.prems(3,4)] False nb dg show ?thesis
        by (simp add: strip_blanks_Cons)
    qed
  qed
qed

text \<open>
  What the tokenizer guarantees on an input made of spaces, tabs, operator and parenthesis
  characters and digits: it returns a token sequence whose concatenation is the input
  without its spaces and tabs, every token is one operator or parenthesis character or a
  nonempty run of digits, and no two runs of digits are neighbours.
\<close>

lemma tokenizer_faithful:
  assumes "\<forall>c \<in> set s. c = CHR '' '' \<or> c = CHR 0x09 \<or> c = CHR ''|'' \<or> c = CHR ''&''
             \<or> c = CHR ''!'' \<or> c = CHR ''('' \<or> c = CHR '')'' \<or> is_digit c"
  shows "\<exists>tokens. parse_logic_expression s = Inr tokens
           \<and> concat tokens = strip_blanks s
           \<and> (\<forall>t \<in> set tokens. operator_token t \<or> literal_token t)
           \<and> no_adjacent_literals tokens"
proof -
  from assms have "list_all (\<lambda>c. is_blank c \<or> is_op_char c \<or> is_digit c) s"
    by (auto simp: list_all_iff is_blank_def is_op_char_def)
  moreover have "list_all is_digit []" "well_tokenized []" "[] = [] \<or> operator_token (last [])"
    by (simp_all add: well_tokenized_def)
  ultimately obtain acc' cur' where
    run: "tokenize_loop s [] [] = Inr (acc', cur')"
    and cur': "list_all is_digit cur'"
    and acc': "well_tokenized acc'" "acc' = [] \<or> operator_token (last acc')"
    and cat: "concat acc' @ cur' = concat [] @ [] @ strip_blanks s"
    using tokenize_loop_invariant [of s "[]" "[]"] by blast
  show ?thesis
  proof (cases "cur' = []")
    case True
    with run acc' cat show ?thesis
      by (simp add: parse_logic_expression_def well_tokenized_def list_all_iff)
  next
    case False
    with cur' have "literal_token cur'"
      by (simp add: literal_token_def)
    with False run acc' cat show ?thesis
      by (auto simp: parse_logic_expression_def well_tokenized_def list_all_iff
          no_adjacent_literals_snoc operator_not_literal)
  qed
qed

section \<open>Tokens of the grammar are read back by the tokenizer\<close>

lemma tokenize_loop_strip:
  "tokenize_loop s tokens cur_token = tokenize_loop (strip_blanks s) tokens cur_token"
proof (induction s arbitrary: tokens cur_token)
  case Nil
  show ?case by (simp add: strip_blanks_def)
next
  case (Cons c cs)
  show ?case
  proof (cases "is_blank c")
    case True
    with Cons.IH show ?thesis by (simp add: strip_blanks_Cons)
  next
    case False
    then have "strip_blanks (c # cs) = c # strip_blanks cs"
      by (simp add: strip_blanks_Cons)
    with False Cons.IH show ?thesis by simp
  qed
qed

lemma tokenize_loop_digits:
  "list_all is_digit d \<Longrightarrow>
     tokenize_loop (d @ r) tokens cur_token = tokenize_loop r tokens (cur_token @ d)"
proof (induction d arbitrary: cur_token)
  case Nil
  show ?case by simp
next
  case (Cons c d)
  then have "is_digit c" and "list_all is_digit d"
    by simp_all
  moreover from this have "\<not> is_blank c" and "\<not> is_op_char c"
    using digit_not_blank [of c] op_char_not_digit [of c] by blast+
  ultimately show ?case
    using Cons.IH [of "cur_token @ [c]"] by simp
qed

lemma tokenize_loop_operator:
  assumes "operator_token t"
  shows "tokenize_loop (t @ r) tokens cur_token
           = tokenize_loop r (with_pending tokens cur_token @ [t]) []"
proof -
  from assms obtain c where t: "t = [c]" and c: "is_op_char c"
    by (auto simp: operator_token_def is_op_char_def)
  then show ?thesis
    by (simp add: with_pending_def op_char_not_blank)
qed

lemma tokenize_loop_concat:
  assumes "well_tokenized toks" and "list_all is_digit cur_token"
    and "cur_token = [] \<or> toks = [] \<or> operator_token (hd toks)"
  shows "\<exists>tokens' cur'. tokenize_loop (concat toks) tokens cur_token = Inr (tokens', cur')
           \<and> with_pending tokens' cur' = with_pending tokens cur_token @ toks"
  using assms
proof (induction toks arbitrary: tokens cur_token)
  case Nil
  show ?case by simp
next
  case (Cons t ts)
  from Cons.prems(1) have shape: "operator_token t \<or> literal_token t"
    and rest: "well_tokenized ts"
    by (cases ts; simp add: well_tokenized_def)+
  show ?case
  proof (cases "operator_token t")
    case True
    have "list_all is_digit []" by simp
    from Cons.IH [OF rest this, of "with_pending tokens cur_token @ [t]"] True show ?thesis
      by (simp add: tokenize_loop_operator with_pending_def)
  next
    case False
    with shape have lit: "literal_token t" by simp
    from False Cons.prems(3) have cur: "cur_token = []" by simp
    from lit have digits: "list_all is_digit t" and ne: "t \<noteq> []"
      by (simp_all add: literal_token_def)
    have next_op: "t = [] \<or> ts = [] \<or> operator_token (hd ts)"
    proof (cases ts)
      case Nil
      then show ?thesis by simp
    next
      case (Cons u us)
      with Cons.prems(1) lit have "operator_token u"
        by (auto simp: well_tokenized_def)
      with Cons show ?thesis by simp
    qed
    have "tokenize_loop (t @ concat ts) tokens [] = tokenize_loop (concat ts) tokens t"
      using tokenize_loop_digits [OF digits, of "concat ts" tokens "[]"] by simp
    with Cons.IH [OF rest digits next_op, of tokens] cur ne show ?thesis
      by (simp add: with_pending_def)
  qed
qed

lemma parse_concat:
  assumes "well_tokenized toks"
  shows "parse_logic_expression (concat toks) = Inr toks"
proof -
  have "list_all is_digit []" by simp
  from tokenize_loop_concat [OF assms this, of "[]"] show ?thesis
    by (auto simp: parse_logic_expression_def with_pending_def)
qed

lemma strip_blanks_token:
  assumes "operator_token t \<or> literal_token t"
  shows "strip_blanks t = t"
proof -
  have "\<not> is_blank c" if "c \<in> set t" for c
  proof (cases "operator_token t")
    case True
    with that show ?thesis
      by (auto simp: operator_token_def is_blank_def)
  next
    case False
    with assms that have "is_digit c"
      by (simp add: literal_token_def list_all_iff)
    then show ?thesis
      by (rule digit_not_blank)
  qed
  then have "\<forall>c \<in> set t. \<not> is_blank c"
    by blast
  then show ?thesis
    by (simp add: strip_blanks_def is_blank_def)
qed

lemma strip_blanks_Nil [simp]: "strip_blanks [] = []"
  by (simp add: strip_blanks_def)

lemma strip_blanks_gap: "list_all is_blank g \<Longrightarrow> strip_blanks g = []"
  by (induction g) (simp_all add: strip_blanks_def is_blank_def)

lemma strip_blanks_interleave:
  assumes "blank_gaps gaps" and "list_all (\<lambda>t. operator_token t \<or> literal_token t) toks"
  shows "strip_blanks (interleave gaps toks) = concat toks"
  using assms
proof (induction gaps toks rule: interleave.induct)
  case (1 gaps)
  then show ?case
    by (induction gaps) (simp_all add: blank_gaps_def strip_blanks_append strip_blanks_gap)
next
  case (2 t ts)
  then show ?case
    by (simp add: strip_blanks_append strip_blanks_token)
next
  case (3 g gaps t ts)
  then show ?case
    by (simp add: strip_blanks_append strip_blanks_token strip_blanks_gap blank_gaps_def)
qed

lemma parse_interleave:
  assumes "well_tokenized toks" and "blank_gaps gaps"
  shows "parse_logic_expression (interleave gaps toks) = Inr toks"
proof -
  from assms have "strip_blanks (interleave gaps toks) = concat toks"
    by (simp add: strip_blanks_interleave well_tokenized_def)
  then have "parse_logic_expression (interleave gaps toks) = parse_logic_expression (concat toks)"
    using tokenize_loop_strip [of "interleave gaps toks" "[]" "[]"]
    by (simp add: parse_logic_expression_def)
  with assms(1) show ?thesis
    by (simp add: parse_concat)
qed

section \<open>Token sequences of the grammar\<close>

lemma no_adjacent_literals_append:
  assumes "no_adjacent_literals a" and "no_adjacent_literals b" and "\<not> literal_token x"
  shows "no_adjacent_literals (a @ x # b)"
  using assms
proof (induction a rule: no_adjacent_literals.induct)
  case (1 u v ts)
  then show ?case by simp
qed (cases b; simp)+

lemma well_tokenized_append:
  assumes "well_tokenized a" and "well_tokenized b" and "operator_token x"
  shows "well_tokenized (a @ x # b)"
  using assms
  by (simp add: well_tokenized_def no_adjacent_literals_append operator_not_literal)

lemma grammar_well_tokenized:
  shows "expr_tokens e \<Longrightarrow> well_tokenized e"
    and "term_tokens t \<Longrightarrow> well_tokenized t"
    and "factor_tokens f \<Longrightarrow> well_tokenized f"
proof (induction rule: expr_tokens_term_tokens_factor_tokens.inducts)
  case (literal t)
  then show ?case by (simp add: well_tokenized_def)
next
  case (negation f)
  have "well_tokenized []" by (simp add: well_tokenized_def)
  from well_tokenized_append [OF this negation.IH, of "''!''"] show ?case
    by (simp add: operator_token_def)
next
  case (parenthesis e)
  have nil: "well_tokenized []" by (simp add: well_tokenized_def)
  from well_tokenized_append [OF parenthesis.IH nil, of "'')''"]
  have "well_tokenized (e @ ['')''])"
    by (simp add: operator_token_def)
  from well_tokenized_append [OF nil this, of "''(''"] show ?case
    by (simp add: operator_token_def)
next
  case (conjunction t f)
  from well_tokenized_append [OF conjunction.IH, of "''&''"] show ?case
    by (simp add: operator_token_def)
next
  case (disjunction e t)
  from well_tokenized_append [OF disjunction.IH, of "''|''"] show ?case
    by (simp add: operator_token_def)
qed

lemma grammar_nonempty:
  shows "expr_tokens e \<Longrightarrow> e \<noteq> []"
    and "term_tokens t \<Longrightarrow> t \<noteq> []"
    and "factor_tokens f \<Longrightarrow> f \<noteq> []"
  by (induction rule: expr_tokens_term_tokens_factor_tokens.inducts) simp_all

section \<open>Postfix sequences and the trees they build\<close>

lemma is_operator_iff: "is_operator t \<longleftrightarrow> operator_token t"
  by (auto simp: is_operator_def operators_def operator_token_def)

lemma digit_not_isspace: "is_digit c \<Longrightarrow> \<not> isspace c"
  by (auto simp: is_digit_def isspace_def)

lemma digit_not_sign: "is_digit c \<Longrightarrow> c \<noteq> CHR ''-'' \<and> c \<noteq> CHR ''+''"
  by (auto simp: is_digit_def)

lemma stoll_literal:
  assumes "literal_token t" and "int (decimal 0 t) \<le> LLONG_MAX"
  shows "stoll t = Inr (int (decimal 0 t))"
proof -
  from assms(1) obtain c cs where t: "t = c # cs" and c: "is_digit c" and cs: "list_all is_digit cs"
    by (cases t) (simp_all add: literal_token_def)
  from c have body: "dropWhile isspace t = t"
    by (simp add: t digit_not_isspace)
  from c cs have digits: "takeWhile is_digit t = t"
    by (simp add: t list_all_iff)
  from c have sign: "hd t \<noteq> CHR ''-''" "hd t \<noteq> CHR ''+''"
    using digit_not_sign [of c] by (simp_all add: t)
  have ne: "t \<noteq> []"
    by (simp add: t)
  have low: "\<not> int (decimal 0 t) < LLONG_MIN"
    by (simp add: LLONG_MIN_def)
  from assms(2) have high: "\<not> LLONG_MAX < int (decimal 0 t)"
    by simp
  show ?thesis
    unfolding stoll_def Let_def body
    by (simp only: sign ne digits low high if_False simp_thms)
qed

lemma rpn2tree_loop_append:
  "rpn2tree_loop cast (a @ b) res_nodes =
     (case rpn2tree_loop cast a res_nodes of
        Inl e \<Rightarrow> Inl e
      | Inr res_nodes' \<Rightarrow> rpn2tree_loop cast b res_nodes')"
  by (induction a arbitrary: res_nodes) (auto split: sum.splits list.splits)

lemma builds_literal:
  assumes "literal_token t" and "int (decimal 0 t) \<le> LLONG_MAX"
  shows "builds cast [t] (LabelNode (cast (int (decimal 0 t))))"
  using assms operator_not_literal [of t]
  by (auto simp: builds_def is_operator_iff stoll_literal)

lemma builds_not:
  assumes "builds cast a n"
  shows "builds cast (a @ [''!'']) (NotNode n)"
  using assms
  by (simp add: builds_def rpn2tree_loop_append is_operator_iff operator_token_def)

lemma builds_and:
  assumes "builds cast a l" and "builds cast b r"
  shows "builds cast (a @ b @ [''&'']) (AndNode l r)"
  using assms
  by (simp add: builds_def rpn2tree_loop_append is_operator_iff operator_token_def)

lemma builds_or:
  assumes "builds cast a l" and "builds cast b r"
  shows "builds cast (a @ b @ [''|'']) (OrNode l r)"
  using assms
  by (simp add: builds_def rpn2tree_loop_append is_operator_iff operator_token_def)

lemma builds_rpn2tree:
  assumes "builds cast rpn n"
  shows "rpn2tree cast rpn = Inr n"
  using assms by (simp add: builds_def rpn2tree_def)

section \<open>The loops of the converter\<close>

lemma drain_append: "drain rpn_expr oper_stack = rpn_expr @ oper_stack"
  by (induction oper_stack arbitrary: rpn_expr) simp_all

lemma pop_until_open_ops:
  "''('' \<notin> set ops \<Longrightarrow>
     pop_until_open rpn_expr (ops @ ''('' # oper_stack) = (rpn_expr @ ops, ''('' # oper_stack)"
  by (induction ops arbitrary: rpn_expr) auto

lemma pop_higher_stop:
  assumes "top_below low oper_stack"
    and "\<forall>x \<in> low. higher_precedence x token = Inr False"
  shows "pop_higher token rpn_expr oper_stack = Inr (rpn_expr, oper_stack)"
  using assms by (cases oper_stack) (auto simp: top_below_def)

lemma pop_higher_ops:
  assumes "\<forall>x \<in> set ops. x \<noteq> ''('' \<and> higher_precedence x token = Inr True"
    and "top_below low oper_stack"
    and "\<forall>x \<in> low. higher_precedence x token = Inr False"
  shows "pop_higher token rpn_expr (ops @ oper_stack) = Inr (rpn_expr @ ops, oper_stack)"
  using assms(1)
proof (induction ops arbitrary: rpn_expr)
  case Nil
  from pop_higher_stop [OF assms(2,3)] show ?case by simp
next
  case (Cons x ops)
  then show ?case by simp
qed

lemma pop_higher_or:
  assumes "set ops \<subseteq> {''!'', ''&'', ''|''}" and "top_below {} oper_stack"
  shows "pop_higher ''|'' rpn_expr (ops @ oper_stack) = Inr (rpn_expr @ ops, oper_stack)"
proof (rule pop_higher_ops [OF _ assms(2)])
  from assms(1) show "\<forall>x \<in> set ops. x \<noteq> ''('' \<and> higher_precedence x ''|'' = Inr True"
    by (auto simp: higher_precedence_def precedence_def)
qed simp

lemma pop_higher_and:
  assumes "set ops \<subseteq> {''!'', ''&''}" and "top_below {''|''} oper_stack"
  shows "pop_higher ''&'' rpn_expr (ops @ oper_stack) = Inr (rpn_expr @ ops, oper_stack)"
proof (rule pop_higher_ops [OF _ assms(2)])
  from assms(1) show "\<forall>x \<in> set ops. x \<noteq> ''('' \<and> higher_precedence x ''&'' = Inr True"
    by (auto simp: higher_precedence_def precedence_def)
qed (simp add: higher_precedence_def precedence_def)

lemma pop_higher_not:
  assumes "top_below {''|'', ''&''} oper_stack"
  shows "pop_higher ''!'' rpn_expr oper_stack = Inr (rpn_expr, oper_stack)"
  by (rule pop_higher_stop [OF assms]) (simp add: higher_precedence_def precedence_def)

lemma convert_loop_literal:
  "literal_token t \<Longrightarrow>
     convert_loop (t # rest) rpn_expr oper_stack = convert_loop rest (rpn_expr @ [t]) oper_stack"
  using operator_not_literal [of t] by (auto simp: convert_token_def is_operator_iff)

lemma convert_loop_open:
  "convert_loop (''('' # rest) rpn_expr oper_stack = convert_loop rest rpn_expr (''('' # oper_stack)"
  by (simp add: convert_token_def is_operator_iff operator_token_def)

lemma convert_loop_close:
  "''('' \<notin> set ops \<Longrightarrow>
     convert_loop ('')'' # rest) rpn_expr (ops @ ''('' # oper_stack)
       = convert_loop rest (rpn_expr @ ops) oper_stack"
  by (simp add: convert_token_def is_operator_iff operator_token_def pop_until_open_ops)

lemma convert_loop_or:
  assumes "set ops \<subseteq> {''!'', ''&'', ''|''}" and "top_below {} oper_stack"
  shows "convert_loop (''|'' # rest) rpn_expr (ops @ oper_stack)
           = convert_loop rest (rpn_expr @ ops) (''|'' # oper_stack)"
  by (simp add: convert_token_def is_operator_iff operator_token_def pop_higher_or [OF assms])

lemma convert_loop_and:
  assumes "set ops \<subseteq> {''!'', ''&''}" and "top_below {''|''} oper_stack"
  shows "convert_loop (''&'' # rest) rpn_expr (ops @ oper_stack)
           = convert_loop rest (rpn_expr @ ops) (''&'' # oper_stack)"
  by (simp add: convert_token_def is_operator_iff operator_token_def pop_higher_and [OF assms])

lemma convert_loop_not:
  assumes "top_below {''|'', ''&''} oper_stack"
  shows "convert_loop (''!'' # rest) rpn_expr oper_stack
           = convert_loop rest rpn_expr (''!'' # oper_stack)"
  by (simp add: convert_token_def is_operator_iff operator_token_def pop_higher_not [OF assms])

section \<open>The converter on the grammar\<close>

lemma shuntsI:
  assumes "set ops \<subseteq> pending" and "builds cast (out @ ops) n"
    and "\<And>oper_stack rest rpn_expr. pre oper_stack \<Longrightarrow>
           convert_loop (toks @ rest) rpn_expr oper_stack
             = convert_loop rest (rpn_expr @ out) (ops @ oper_stack)"
  shows "shunts cast toks pre pending n"
  unfolding shunts_def using assms by blast

lemma shuntsD:
  assumes "shunts cast toks pre pending n"
  shows "\<exists>out ops. set ops \<subseteq> pending \<and> builds cast (out @ ops) n \<and>
           (\<forall>oper_stack rest rpn_expr. pre oper_stack \<longrightarrow>
              convert_loop (toks @ rest) rpn_expr oper_stack
                = convert_loop rest (rpn_expr @ out) (ops @ oper_stack))"
  using assms unfolding shunts_def .

lemma top_below_mono: "top_below low oper_stack \<Longrightarrow> low \<subseteq> low' \<Longrightarrow> top_below low' oper_stack"
  by (auto simp: top_below_def)

lemma top_below_open [simp]: "top_below low (''('' # oper_stack)"
  by (simp add: top_below_def)

lemma top_below_member: "x \<in> low \<Longrightarrow> top_below low (x # oper_stack)"
  by (simp add: top_below_def)

lemma no_double_negation_tail: "no_double_negation (x # ts) \<Longrightarrow> no_double_negation ts"
  by (cases ts) simp_all

lemma no_double_negation_append:
  "no_double_negation (a @ b) \<Longrightarrow> no_double_negation a \<and> no_double_negation b"
proof (induction a rule: no_double_negation.induct)
  case (1 u v ts)
  then show ?case by simp
qed (cases b; simp)+

lemma literals_in_range_append [simp]:
  "literals_in_range (a @ b) \<longleftrightarrow> literals_in_range a \<and> literals_in_range b"
  by (simp add: literals_in_range_def)

lemma literals_in_range_Cons:
  "literals_in_range (x # ts) \<longleftrightarrow>
     (\<not> literal_token x \<or> int (decimal 0 x) \<le> LLONG_MAX) \<and> literals_in_range ts"
  by (simp add: literals_in_range_def)

lemma shunts_literal:
  assumes "literal_token t" and "int (decimal 0 t) \<le> LLONG_MAX"
  shows "shunts cast [t] pre pending (LabelNode (cast (int (decimal 0 t))))"
proof (rule shuntsI [where ops = "[]" and out = "[t]"])
  show "builds cast ([t] @ []) (LabelNode (cast (int (decimal 0 t))))"
    using builds_literal [OF assms] by simp
next
  fix oper_stack rest rpn_expr
  show "convert_loop ([t] @ rest) rpn_expr oper_stack
          = convert_loop rest (rpn_expr @ [t]) ([] @ oper_stack)"
    using convert_loop_literal [OF assms(1), of rest rpn_expr oper_stack]
    by (simp del: convert_loop.simps)
qed simp

lemma shunts_negation:
  assumes f: "shunts cast f (\<lambda>st. hd f = ''!'' \<longrightarrow> top_below {''|'', ''&''} st) {''!''} n"
    and first: "hd f \<noteq> ''!''"
  shows "shunts cast (''!'' # f) (\<lambda>st. hd (''!'' # f) = ''!'' \<longrightarrow> top_below {''|'', ''&''} st)
           {''!''} (NotNode n)"
proof -
  from f obtain out ops where ops: "set ops \<subseteq> {''!''}" and tree: "builds cast (out @ ops) n"
    and run: "\<And>oper_stack rest rpn_expr.
           convert_loop (f @ rest) rpn_expr oper_stack
             = convert_loop rest (rpn_expr @ out) (ops @ oper_stack)"
    using shuntsD [OF f] first by auto
  show ?thesis
  proof (rule shuntsI [where ops = "ops @ [''!'']" and out = out])
    show "set (ops @ [''!'']) \<subseteq> {''!''}"
      using ops by simp
    show "builds cast (out @ ops @ [''!'']) (NotNode n)"
      using builds_not [OF tree] by simp
  next
    fix oper_stack rest rpn_expr
    assume "hd (''!'' # f) = ''!'' \<longrightarrow> top_below {''|'', ''&''} oper_stack"
    then have "top_below {''|'', ''&''} oper_stack"
      by simp
    then have "convert_loop ((''!'' # f) @ rest) rpn_expr oper_stack
                 = convert_loop (f @ rest) rpn_expr (''!'' # oper_stack)"
      using convert_loop_not [of oper_stack "f @ rest" rpn_expr] by simp
    also have "\<dots> = convert_loop rest (rpn_expr @ out) (ops @ ''!'' # oper_stack)"
      by (rule run)
    finally show "convert_loop ((''!'' # f) @ rest) rpn_expr oper_stack
                    = convert_loop rest (rpn_expr @ out) ((ops @ [''!'']) @ oper_stack)"
      by simp
  qed
qed

lemma shunts_parenthesis:
  assumes e: "shunts cast e (top_below {}) {''!'', ''&'', ''|''} n"
  shows "shunts cast (''('' # e @ ['')'']) pre pending n"
proof -
  from e obtain out ops where ops: "set ops \<subseteq> {''!'', ''&'', ''|''}"
    and tree: "builds cast (out @ ops) n"
    and run: "\<And>oper_stack rest rpn_expr. top_below {} oper_stack \<Longrightarrow>
           convert_loop (e @ rest) rpn_expr oper_stack
             = convert_loop rest (rpn_expr @ out) (ops @ oper_stack)"
    using shuntsD [OF e] by auto
  from ops have no_open: "''('' \<notin> set ops"
    by auto
  show ?thesis
  proof (rule shuntsI [where ops = "[]" and out = "out @ ops"])
    show "builds cast ((out @ ops) @ []) n"
      using tree by simp
  next
    fix oper_stack rest rpn_expr
    have "convert_loop ((''('' # e @ ['')'']) @ rest) rpn_expr oper_stack
            = convert_loop (e @ '')'' # rest) rpn_expr (''('' # oper_stack)"
      using convert_loop_open [of "e @ '')'' # rest" rpn_expr oper_stack] by simp
    also have "\<dots> = convert_loop ('')'' # rest) (rpn_expr @ out) (ops @ ''('' # oper_stack)"
      by (rule run) simp
    also have "\<dots> = convert_loop rest ((rpn_expr @ out) @ ops) oper_stack"
      using no_open by (rule convert_loop_close)
    finally show "convert_loop ((''('' # e @ ['')'']) @ rest) rpn_expr oper_stack
                    = convert_loop rest (rpn_expr @ out @ ops) ([] @ oper_stack)"
      by simp
  qed simp
qed

lemma shunts_weaken:
  assumes "shunts cast toks pre pending n"
    and "\<And>oper_stack. pre' oper_stack \<Longrightarrow> pre oper_stack" and "pending \<subseteq> pending'"
  shows "shunts cast toks pre' pending' n"
proof -
  from shuntsD [OF assms(1)] obtain out ops where ops: "set ops \<subseteq> pending"
    and tree: "builds cast (out @ ops) n"
    and run: "\<And>oper_stack rest rpn_expr. pre oper_stack \<Longrightarrow>
           convert_loop (toks @ rest) rpn_expr oper_stack
             = convert_loop rest (rpn_expr @ out) (ops @ oper_stack)"
    by auto
  show ?thesis
  proof (rule shuntsI [where ops = ops and out = out])
    show "set ops \<subseteq> pending'"
      using ops assms(3) by blast
    show "builds cast (out @ ops) n"
      by (rule tree)
  next
    fix oper_stack rest rpn_expr
    assume "pre' oper_stack"
    then have "pre oper_stack"
      by (rule assms(2))
    then show "convert_loop (toks @ rest) rpn_expr oper_stack
                 = convert_loop rest (rpn_expr @ out) (ops @ oper_stack)"
      by (rule run)
  qed
qed

lemma shunts_conjunction:
  assumes t: "shunts cast t (top_below {''|''}) {''!'', ''&''} l"
    and f: "shunts cast f (\<lambda>st. hd f = ''!'' \<longrightarrow> top_below {''|'', ''&''} st) {''!''} r"
  shows "shunts cast (t @ ''&'' # f) (top_below {''|''}) {''!'', ''&''} (AndNode l r)"
proof -
  from t obtain out1 ops1 where ops1: "set ops1 \<subseteq> {''!'', ''&''}"
    and tree1: "builds cast (out1 @ ops1) l"
    and run1: "\<And>oper_stack rest rpn_expr. top_below {''|''} oper_stack \<Longrightarrow>
           convert_loop (t @ rest) rpn_expr oper_stack
             = convert_loop rest (rpn_expr @ out1) (ops1 @ oper_stack)"
    using shuntsD [OF t] by auto
  from f obtain out2 ops2 where ops2: "set ops2 \<subseteq> {''!''}"
    and tree2: "builds cast (out2 @ ops2) r"
    and run2: "\<And>oper_stack rest rpn_expr. top_below {''|'', ''&''} oper_stack \<Longrightarrow>
           convert_loop (f @ rest) rpn_expr oper_stack
             = convert_loop rest (rpn_expr @ out2) (ops2 @ oper_stack)"
    using shuntsD [OF f] by auto
  show ?thesis
  proof (rule shuntsI [where ops = "ops2 @ [''&'']" and out = "out1 @ ops1 @ out2"])
    show "set (ops2 @ [''&'']) \<subseteq> {''!'', ''&''}"
      using ops2 by auto
    show "builds cast ((out1 @ ops1 @ out2) @ ops2 @ [''&'']) (AndNode l r)"
      using builds_and [OF tree1 tree2] by simp
  next
    fix oper_stack rest rpn_expr
    assume low: "top_below {''|''} oper_stack"
    have "convert_loop ((t @ ''&'' # f) @ rest) rpn_expr oper_stack
            = convert_loop (t @ ''&'' # f @ rest) rpn_expr oper_stack"
      by simp
    also have "\<dots> = convert_loop (''&'' # f @ rest) (rpn_expr @ out1) (ops1 @ oper_stack)"
      using low by (rule run1)
    also have "\<dots> = convert_loop (f @ rest) ((rpn_expr @ out1) @ ops1) (''&'' # oper_stack)"
      using ops1 low by (rule convert_loop_and)
    also have "\<dots> = convert_loop rest (((rpn_expr @ out1) @ ops1) @ out2) (ops2 @ ''&'' # oper_stack)"
      by (rule run2) (simp add: top_below_member)
    finally show "convert_loop ((t @ ''&'' # f) @ rest) rpn_expr oper_stack
                    = convert_loop rest (rpn_expr @ out1 @ ops1 @ out2) ((ops2 @ [''&'']) @ oper_stack)"
      by simp
  qed
qed

lemma shunts_disjunction:
  assumes e: "shunts cast e (top_below {}) {''!'', ''&'', ''|''} l"
    and t: "shunts cast t (top_below {''|''}) {''!'', ''&''} r"
  shows "shunts cast (e @ ''|'' # t) (top_below {}) {''!'', ''&'', ''|''} (OrNode l r)"
proof -
  from e obtain out1 ops1 where ops1: "set ops1 \<subseteq> {''!'', ''&'', ''|''}"
    and tree1: "builds cast (out1 @ ops1) l"
    and run1: "\<And>oper_stack rest rpn_expr. top_below {} oper_stack \<Longrightarrow>
           convert_loop (e @ rest) rpn_expr oper_stack
             = convert_loop rest (rpn_expr @ out1) (ops1 @ oper_stack)"
    using shuntsD [OF e] by auto
  from t obtain out2 ops2 where ops2: "set ops2 \<subseteq> {''!'', ''&''}"
    and tree2: "builds cast (out2 @ ops2) r"
    and run2: "\<And>oper_stack rest rpn_expr. top_below {''|''} oper_stack \<Longrightarrow>
           convert_loop (t @ rest) rpn_expr oper_stack
             = convert_loop rest (rpn_expr @ out2) (ops2 @ oper_stack)"
    using shuntsD [OF t] by auto
  show ?thesis
  proof (rule shuntsI [where ops = "ops2 @ [''|'']" and out = "out1 @ ops1 @ out2"])
    show "set (ops2 @ [''|'']) \<subseteq> {''!'', ''&'', ''|''}"
      using ops2 by auto
    show "builds cast ((out1 @ ops1 @ out2) @ ops2 @ [''|'']) (OrNode l r)"
      using builds_or [OF tree1 tree2] by simp
  next
    fix oper_stack rest rpn_expr
    assume low: "top_below {} oper_stack"
    have "convert_loop ((e @ ''|'' # t) @ rest) rpn_expr oper_stack
            = convert_loop (e @ ''|'' # t @ rest) rpn_expr oper_stack"
      by simp
    also have "\<dots> = convert_loop (''|'' # t @ rest) (rpn_expr @ out1) (ops1 @ oper_stack)"
      using low by (rule run1)
    also have "\<dots> = convert_loop (t @ rest) ((rpn_expr @ out1) @ ops1) (''|'' # oper_stack)"
      using ops1 low by (rule convert_loop_or)
    also have "\<dots> = convert_loop rest (((rpn_expr @ out1) @ ops1) @ out2) (ops2 @ ''|'' # oper_stack)"
      by (rule run2) (simp add: top_below_member)
    finally show "convert_loop ((e @ ''|'' # t) @ rest) rpn_expr oper_stack
                    = convert_loop rest (rpn_expr @ out1 @ ops1 @ out2) ((ops2 @ [''|'']) @ oper_stack)"
      by simp
  qed
qed

lemma shunts_factor_as_term:
  assumes "shunts cast f (\<lambda>st. hd f = ''!'' \<longrightarrow> top_below {''|'', ''&''} st) {''!''} n"
  shows "shunts cast f (top_below {''|''}) {''!'', ''&''} n"
proof (rule shunts_weaken [OF assms])
  fix oper_stack
  assume "top_below {''|''} oper_stack"
  then have "top_below {''|'', ''&''} oper_stack"
    by (rule top_below_mono) simp
  then show "hd f = ''!'' \<longrightarrow> top_below {''|'', ''&''} oper_stack"
    by simp
qed simp

lemma shunts_term_as_expr:
  assumes "shunts cast t (top_below {''|''}) {''!'', ''&''} n"
  shows "shunts cast t (top_below {}) {''!'', ''&'', ''|''} n"
proof (rule shunts_weaken [OF assms])
  fix oper_stack
  assume "top_below {} oper_stack"
  then show "top_below {''|''} oper_stack"
    by (rule top_below_mono) simp
qed simp

lemma grammar_shunts:
  shows "expr_tokens e \<Longrightarrow> no_double_negation e \<Longrightarrow> literals_in_range e \<Longrightarrow>
           \<exists>n. shunts cast e (top_below {}) {''!'', ''&'', ''|''} n"
    and "term_tokens t \<Longrightarrow> no_double_negation t \<Longrightarrow> literals_in_range t \<Longrightarrow>
           \<exists>n. shunts cast t (top_below {''|''}) {''!'', ''&''} n"
    and "factor_tokens f \<Longrightarrow> no_double_negation f \<Longrightarrow> literals_in_range f \<Longrightarrow>
           \<exists>n. shunts cast f (\<lambda>st. hd f = ''!'' \<longrightarrow> top_below {''|'', ''&''} st) {''!''} n"
proof (induction rule: expr_tokens_term_tokens_factor_tokens.inducts)
  case (literal t)
  from literal(1,3) have "int (decimal 0 t) \<le> LLONG_MAX"
    by (simp add: literals_in_range_def)
  from shunts_literal [OF literal(1) this] show ?case ..
next
  case (negation f)
  from negation.hyps obtain x xs where f: "f = x # xs"
    using grammar_nonempty(3) [of f] by (cases f) simp_all
  from negation.prems(1) have first: "hd f \<noteq> ''!''" and inner: "no_double_negation f"
    by (simp_all add: f)
  from negation.prems(2) have "literals_in_range f"
    by (simp add: literals_in_range_Cons)
  from negation.IH [OF inner this] obtain n where
    "shunts cast f (\<lambda>st. hd f = ''!'' \<longrightarrow> top_below {''|'', ''&''} st) {''!''} n" ..
  from shunts_negation [OF this first] show ?case ..
next
  case (parenthesis e)
  from parenthesis.prems(1) have "no_double_negation (e @ ['')''])"
    by (rule no_double_negation_tail)
  then have inner: "no_double_negation e"
    using no_double_negation_append [of e "['')'']"] by simp
  from parenthesis.prems(2) have "literals_in_range e"
    by (simp add: literals_in_range_Cons)
  from parenthesis.IH [OF inner this] obtain n where
    "shunts cast e (top_below {}) {''!'', ''&'', ''|''} n" ..
  from shunts_parenthesis [OF this] show ?case ..
next
  case (one_factor f)
  from one_factor.IH [OF one_factor.prems] obtain n where
    "shunts cast f (\<lambda>st. hd f = ''!'' \<longrightarrow> top_below {''|'', ''&''} st) {''!''} n" ..
  from shunts_factor_as_term [OF this] show ?case ..
next
  case (conjunction t f)
  from conjunction.prems(1) have left: "no_double_negation t" and "no_double_negation (''&'' # f)"
    using no_double_negation_append [of t "''&'' # f"] by simp_all
  from this(2) have right: "no_double_negation f"
    by (rule no_double_negation_tail)
  from conjunction.prems(2) have range: "literals_in_range t" "literals_in_range f"
    by (simp_all add: literals_in_range_Cons)
  from conjunction.IH(1) [OF left range(1)] obtain l where
    l: "shunts cast t (top_below {''|''}) {''!'', ''&''} l" ..
  from conjunction.IH(2) [OF right range(2)] obtain r where
    r: "shunts cast f (\<lambda>st. hd f = ''!'' \<longrightarrow> top_below {''|'', ''&''} st) {''!''} r" ..
  from shunts_conjunction [OF l r] show ?case ..
next
  case (one_term t)
  from one_term.IH [OF one_term.prems] obtain n where
    "shunts cast t (top_below {''|''}) {''!'', ''&''} n" ..
  from shunts_term_as_expr [OF this] show ?case ..
next
  case (disjunction e t)
  from disjunction.prems(1) have left: "no_double_negation e" and "no_double_negation (''|'' # t)"
    using no_double_negation_append [of e "''|'' # t"] by simp_all
  from this(2) have right: "no_double_negation t"
    by (rule no_double_negation_tail)
  from disjunction.prems(2) have range: "literals_in_range e" "literals_in_range t"
    by (simp_all add: literals_in_range_Cons)
  from disjunction.IH(1) [OF left range(1)] obtain l where
    l: "shunts cast e (top_below {}) {''!'', ''&'', ''|''} l" ..
  from disjunction.IH(2) [OF right range(2)] obtain r where
    r: "shunts cast t (top_below {''|''}) {''!'', ''&''} r" ..
  from shunts_disjunction [OF l r] show ?case ..
qed

section \<open>Expressions of the grammar are compiled\<close>

lemma parse_stripped:
  assumes "strip_blanks s = concat toks" and "well_tokenized toks"
  shows "parse_logic_expression s = Inr toks"
proof -
  have "parse_logic_expression s = parse_logic_expression (concat toks)"
    using tokenize_loop_strip [of s "[]" "[]"] assms(1)
    by (simp add: parse_logic_expression_def)
  with assms(2) show ?thesis
    by (simp add: parse_concat)
qed

lemma SyntaxTree_from_run:
  assumes "parse_logic_expression s = Inr toks"
    and "convert_loop toks [] [] = Inr (out, ops)"
    and "builds cast (out @ ops) n"
  shows "SyntaxTree cast s = Inr n"
  using assms by (simp add: SyntaxTree_def convert2rpn_def drain_append builds_rpn2tree)

text \<open>
  C3, as the code has it. Every text of the grammar whose literals are values of
  \<open>long long\<close> and in which no \<open>!\<close> directly follows another \<open>!\<close>, with any spaces and tabs
  before, between and after its tokens, is compiled to a tree.
\<close>

theorem grammar_expression_compiles:
  assumes "expr_tokens tokens" and "blank_gaps gaps"
    and "literals_in_range tokens" and "no_double_negation tokens"
  shows "\<exists>root. SyntaxTree cast (interleave gaps tokens) = Inr root"
proof -
  from assms(1) have "well_tokenized tokens"
    by (rule grammar_well_tokenized)
  then have parsed: "parse_logic_expression (interleave gaps tokens) = Inr tokens"
    using assms(2) by (rule parse_interleave)
  from grammar_shunts(1) [OF assms(1,4,3)] obtain n where
    "shunts cast tokens (top_below {}) {''!'', ''&'', ''|''} n" ..
  from shuntsD [OF this] obtain out ops where tree: "builds cast (out @ ops) n"
    and run: "\<And>oper_stack rest rpn_expr. top_below {} oper_stack \<Longrightarrow>
           convert_loop (tokens @ rest) rpn_expr oper_stack
             = convert_loop rest (rpn_expr @ out) (ops @ oper_stack)"
    by auto
  have "top_below {} []"
    by (simp add: top_below_def)
  from run [OF this, of "[]" "[]"] have "convert_loop tokens [] [] = Inr (out, ops)"
    by simp
  from SyntaxTree_from_run [OF parsed this tree] show ?thesis ..
qed

lemma sample_expression: "expr_tokens [''!'', ''('', ''1'', ''|'', ''2'', '')'', ''&'', ''30'']"
proof -
  have one: "factor_tokens [''1'']" and two: "factor_tokens [''2'']" and thirty: "factor_tokens [''30'']"
    by (rule literal, simp add: literal_token_def is_digit_def)+
  from disjunction [OF one_term [OF one_factor [OF one]] one_factor [OF two]]
  have "expr_tokens [''1'', ''|'', ''2'']"
    by simp
  from negation [OF parenthesis [OF this]]
  have "factor_tokens [''!'', ''('', ''1'', ''|'', ''2'', '')'']"
    by simp
  from one_term [OF conjunction [OF one_factor [OF this] thirty]] show ?thesis
    by simp
qed

theorem grammar_expression_compiles_witness:
  "SyntaxTree (unsigned_cast :: int \<Rightarrow> 32 word) '' !(1 | 2)& 30  ''
     = Inr (AndNode (NotNode (OrNode (LabelNode 1) (LabelNode 2))) (LabelNode 30))
   \<and> (\<exists>root. SyntaxTree (unsigned_cast :: int \<Rightarrow> 32 word) '' !(1 | 2)& 30  '' = Inr root)"
proof -
  let ?gaps = "['' '', [], [], '' '', '' '', [], [], '' '', ''  '']"
  let ?tokens = "[''!'', ''('', ''1'', ''|'', ''2'', '')'', ''&'', ''30'']"
  have gaps: "blank_gaps ?gaps"
    by (simp add: blank_gaps_def is_blank_def)
  have range: "literals_in_range ?tokens"
    by (simp add: literals_in_range_def literal_token_def is_digit_def LLONG_MAX_def)
  have shape: "no_double_negation ?tokens"
    by simp
  from grammar_expression_compiles [OF sample_expression gaps range shape, of unsigned_cast]
  have "\<exists>root. SyntaxTree (unsigned_cast :: int \<Rightarrow> 32 word) '' !(1 | 2)& 30  '' = Inr root"
    by simp
  moreover have "SyntaxTree (unsigned_cast :: int \<Rightarrow> 32 word) '' !(1 | 2)& 30  ''
     = Inr (AndNode (NotNode (OrNode (LabelNode 1) (LabelNode 2))) (LabelNode 30))"
    by (simp add: eval_defs unsigned_cast_def)
  ultimately show ?thesis
    by blast
qed

text \<open>
  C3, as the specification states it, fails: one literal is an expression of the grammar,
  and the literal \<open>9223372036854775808\<close> is one more than the largest \<open>long long\<close>, so
  \<open>std::stoll\<close> throws \<open>std::out_of_range\<close> and no tree is built.
\<close>

theorem grammar_literal_out_of_range:
  "expr_tokens [''9223372036854775808'']
   \<and> blank_gaps []
   \<and> interleave [] [''9223372036854775808''] = ''9223372036854775808''
   \<and> SyntaxTree (unsigned_cast :: int \<Rightarrow> 64 word) ''9223372036854775808'' = Inl Out_of_range"
proof -
  have "literal_token ''9223372036854775808''"
    by (simp add: literal_token_def is_digit_def)
  then have "expr_tokens [''9223372036854775808'']"
    by (intro one_term one_factor literal)
  moreover have "SyntaxTree (unsigned_cast :: int \<Rightarrow> 64 word) ''9223372036854775808''
      = Inl Out_of_range"
    by (simp add: eval_defs)
  ultimately show ?thesis
    by (simp add: blank_gaps_def)
qed

section \<open>De Morgan without repeated negation\<close>

lemma primary_shunts:
  assumes "factor_tokens a" and "hd a \<noteq> ''!''"
    and "literals_in_range a" and "no_double_negation a"
  shows "\<exists>n out ops. set ops \<subseteq> {''!''} \<and> builds cast (out @ ops) n \<and>
           (\<forall>oper_stack rest rpn_expr.
              convert_loop (a @ rest) rpn_expr oper_stack
                = convert_loop rest (rpn_expr @ out) (ops @ oper_stack))"
proof -
  from grammar_shunts(3) [OF assms(1,4,3)] obtain n where
    "shunts cast a (\<lambda>st. hd a = ''!'' \<longrightarrow> top_below {''|'', ''&''} st) {''!''} n" ..
  from shuntsD [OF this] assms(2) show ?thesis
    by auto
qed

text \<open>
  Where no \<open>!\<close> meets another \<open>!\<close>, De Morgan's law holds on compiled texts. Let \<open>A\<close> and
  \<open>B\<close> be texts of factors of the grammar that do not begin with \<open>!\<close> (a literal, or an
  expression in parentheses), with literals that are values of \<open>long long\<close> and without
  directly repeated \<open>!\<close>. Then \<open>!(A&B)\<close> and \<open>!A|!B\<close> are both compiled, to the negated
  conjunction and to the disjunction of the negations of the same two trees, and \<open>check\<close>
  gives the same answer for both on every label collection.
\<close>

lemma de_morgan_compiled:
  assumes a: "factor_tokens a" "hd a \<noteq> ''!''" "literals_in_range a" "no_double_negation a"
    and b: "factor_tokens b" "hd b \<noteq> ''!''" "literals_in_range b" "no_double_negation b"
    and gaps: "blank_gaps gaps_a" "blank_gaps gaps_b"
  shows "\<exists>l r.
           SyntaxTree cast (''!('' @ interleave gaps_a a @ ''&'' @ interleave gaps_b b @ '')'')
             = Inr (NotNode (AndNode l r))
         \<and> SyntaxTree cast (''!'' @ interleave gaps_a a @ ''|!'' @ interleave gaps_b b)
             = Inr (OrNode (NotNode l) (NotNode r))
         \<and> compile_check cast (''!('' @ interleave gaps_a a @ ''&'' @ interleave gaps_b b @ '')'') labels
             = compile_check cast (''!'' @ interleave gaps_a a @ ''|!'' @ interleave gaps_b b) labels"
proof -
  let ?A = "interleave gaps_a a" and ?B = "interleave gaps_b b"
  let ?inner = "''!'' # ''('' # a @ ''&'' # b @ ['')'']"
  let ?outer = "''!'' # a @ ''|'' # ''!'' # b"
  from primary_shunts [OF a, of cast] obtain l out_a ops_a where
    ops_a: "set ops_a \<subseteq> {''!''}" and tree_a: "builds cast (out_a @ ops_a) l"
    and run_a: "\<And>oper_stack rest rpn_expr.
           convert_loop (a @ rest) rpn_expr oper_stack
             = convert_loop rest (rpn_expr @ out_a) (ops_a @ oper_stack)"
    by auto
  from primary_shunts [OF b, of cast] obtain r out_b ops_b where
    ops_b: "set ops_b \<subseteq> {''!''}" and tree_b: "builds cast (out_b @ ops_b) r"
    and run_b: "\<And>oper_stack rest rpn_expr.
           convert_loop (b @ rest) rpn_expr oper_stack
             = convert_loop rest (rpn_expr @ out_b) (ops_b @ oper_stack)"
    by auto
  have wa: "well_tokenized a" and wb: "well_tokenized b"
    using a(1) b(1) by (simp_all add: grammar_well_tokenized)
  have strip_a: "strip_blanks ?A = concat a" and strip_b: "strip_blanks ?B = concat b"
    using wa wb gaps by (simp_all add: strip_blanks_interleave well_tokenized_def)
  have empty_low: "top_below low []" for low
    by (simp add: top_below_def)

  have inner_grammar: "factor_tokens ?inner"
    using negation [OF parenthesis [OF one_term [OF conjunction [OF one_factor [OF a(1)] b(1)]]]]
    by simp
  have "strip_blanks (''!('' @ ?A @ ''&'' @ ?B @ '')'') = concat ?inner"
    by (simp add: strip_blanks_append strip_a strip_b strip_blanks_Cons is_blank_def)
  then have inner_parsed: "parse_logic_expression (''!('' @ ?A @ ''&'' @ ?B @ '')'') = Inr ?inner"
    using grammar_well_tokenized(3) [OF inner_grammar] by (rule parse_stripped)
  have "convert_loop ?inner [] [] = convert_loop (''('' # a @ ''&'' # b @ ['')'']) [] [''!'']"
    using convert_loop_not [OF empty_low] by simp
  also have "\<dots> = convert_loop (a @ ''&'' # b @ ['')'']) [] [''('', ''!'']"
    by (rule convert_loop_open)
  also have "\<dots> = convert_loop (''&'' # b @ ['')'']) ([] @ out_a) (ops_a @ [''('', ''!''])"
    by (rule run_a)
  also have "\<dots> = convert_loop (b @ ['')'']) (([] @ out_a) @ ops_a) (''&'' # [''('', ''!''])"
    using ops_a by (intro convert_loop_and) auto
  also have "\<dots> = convert_loop ['')''] ((([] @ out_a) @ ops_a) @ out_b) (ops_b @ ''&'' # [''('', ''!''])"
    by (rule run_b)
  also have "\<dots> = convert_loop ['')''] (out_a @ ops_a @ out_b) ((ops_b @ [''&'']) @ ''('' # [''!''])"
    by simp
  also have "\<dots> = convert_loop [] ((out_a @ ops_a @ out_b) @ ops_b @ [''&'']) [''!'']"
    using ops_b by (intro convert_loop_close) auto
  finally have inner_run:
    "convert_loop ?inner [] [] = Inr ((out_a @ ops_a) @ (out_b @ ops_b) @ [''&''], [''!''])"
    by simp
  have inner_tree: "builds cast (((out_a @ ops_a) @ (out_b @ ops_b) @ [''&'']) @ [''!''])
      (NotNode (AndNode l r))"
    by (rule builds_not [OF builds_and [OF tree_a tree_b]])
  have inner: "SyntaxTree cast (''!('' @ ?A @ ''&'' @ ?B @ '')'') = Inr (NotNode (AndNode l r))"
    by (rule SyntaxTree_from_run [OF inner_parsed inner_run inner_tree])

  have outer_grammar: "expr_tokens ?outer"
    using disjunction [OF one_term [OF one_factor [OF negation [OF a(1)]]]
        one_factor [OF negation [OF b(1)]]]
    by simp
  have "strip_blanks (''!'' @ ?A @ ''|!'' @ ?B) = concat ?outer"
    by (simp add: strip_blanks_append strip_a strip_b strip_blanks_Cons is_blank_def)
  then have outer_parsed: "parse_logic_expression (''!'' @ ?A @ ''|!'' @ ?B) = Inr ?outer"
    using grammar_well_tokenized(1) [OF outer_grammar] by (rule parse_stripped)
  have "convert_loop ?outer [] [] = convert_loop (a @ ''|'' # ''!'' # b) [] [''!'']"
    using convert_loop_not [OF empty_low] by simp
  also have "\<dots> = convert_loop (''|'' # ''!'' # b) ([] @ out_a) (ops_a @ [''!''])"
    by (rule run_a)
  also have "\<dots> = convert_loop (''|'' # ''!'' # b) out_a ((ops_a @ [''!'']) @ [])"
    by simp
  also have "\<dots> = convert_loop (''!'' # b) (out_a @ ops_a @ [''!'']) (''|'' # [])"
    using ops_a by (intro convert_loop_or empty_low) auto
  also have "\<dots> = convert_loop (b @ []) (out_a @ ops_a @ [''!'']) (''!'' # [''|''])"
    using convert_loop_not [of "[''|'']" b] by (simp add: top_below_def)
  also have "\<dots> = convert_loop [] ((out_a @ ops_a @ [''!'']) @ out_b) (ops_b @ ''!'' # [''|''])"
    by (rule run_b)
  finally have outer_run:
    "convert_loop ?outer [] []
       = Inr (((out_a @ ops_a) @ [''!'']) @ out_b, (ops_b @ [''!'']) @ [''|''])"
    by simp
  have outer_tree:
    "builds cast ((((out_a @ ops_a) @ [''!'']) @ out_b) @ (ops_b @ [''!'']) @ [''|''])
      (OrNode (NotNode l) (NotNode r))"
    using builds_or [OF builds_not [OF tree_a] builds_not [OF tree_b]] by simp
  have outer: "SyntaxTree cast (''!'' @ ?A @ ''|!'' @ ?B) = Inr (OrNode (NotNode l) (NotNode r))"
    by (rule SyntaxTree_from_run [OF outer_parsed outer_run outer_tree])

  from inner outer have "compile_check cast (''!('' @ ?A @ ''&'' @ ?B @ '')'') labels
      = compile_check cast (''!'' @ ?A @ ''|!'' @ ?B) labels"
    by (simp add: compile_check_def)
  with inner outer show ?thesis
    by blast
qed

section \<open>Precedence of the binary operators\<close>

lemma operator_strings_not_literal:
  "\<not> literal_token ''|''" "\<not> literal_token ''&''"
  by (simp_all add: literal_token_def is_digit_def)

lemma check_label_member: "check (LabelNode v) labels \<longleftrightarrow> v \<in> set labels"
  using std_find_end_iff [of labels v] by simp

lemma or_then_and_compiles:
  assumes a: "literal_token a" "int (decimal 0 a) \<le> LLONG_MAX"
    and b: "literal_token b" "int (decimal 0 b) \<le> LLONG_MAX"
    and c: "literal_token c" "int (decimal 0 c) \<le> LLONG_MAX"
  shows "SyntaxTree cast (a @ ''|'' @ b @ ''&'' @ c)
           = Inr (OrNode (LabelNode (cast (int (decimal 0 a))))
                   (AndNode (LabelNode (cast (int (decimal 0 b))))
                            (LabelNode (cast (int (decimal 0 c))))))"
proof -
  let ?toks = "[a, ''|'', b, ''&'', c]"
  have shape: "well_tokenized ?toks"
    using a(1) b(1) c(1)
    by (simp add: well_tokenized_def operator_token_def operator_strings_not_literal)
  have "strip_blanks (a @ ''|'' @ b @ ''&'' @ c) = concat ?toks"
    using a(1) b(1) c(1)
    by (simp add: strip_blanks_append strip_blanks_token strip_blanks_Cons is_blank_def)
  then have parsed: "parse_logic_expression (a @ ''|'' @ b @ ''&'' @ c) = Inr ?toks"
    using shape by (rule parse_stripped)
  have "convert_loop ?toks [] [] = convert_loop [''|'', b, ''&'', c] ([] @ [a]) []"
    using a(1) by (rule convert_loop_literal)
  also have "\<dots> = convert_loop [b, ''&'', c] [a] [''|'']"
    using convert_loop_or [of "[]" "[]" "[b, ''&'', c]" "[a]"] by (simp add: top_below_def)
  also have "\<dots> = convert_loop [''&'', c] ([a] @ [b]) [''|'']"
    using b(1) by (rule convert_loop_literal)
  also have "\<dots> = convert_loop [c] [a, b] [''&'', ''|'']"
    using convert_loop_and [of "[]" "[''|'']" "[c]" "[a, b]"] by (simp add: top_below_def)
  also have "\<dots> = convert_loop [] ([a, b] @ [c]) [''&'', ''|'']"
    using c(1) by (rule convert_loop_literal)
  finally have run: "convert_loop ?toks [] [] = Inr ([a, b, c], [''&'', ''|''])"
    by simp
  from builds_or [OF builds_literal [OF a] builds_and [OF builds_literal [OF b] builds_literal [OF c]]]
  have "builds cast ([a, b, c] @ [''&'', ''|''])
          (OrNode (LabelNode (cast (int (decimal 0 a))))
             (AndNode (LabelNode (cast (int (decimal 0 b)))) (LabelNode (cast (int (decimal 0 c))))))"
    by simp
  with parsed run show ?thesis
    by (rule SyntaxTree_from_run)
qed

lemma and_then_or_compiles:
  assumes a: "literal_token a" "int (decimal 0 a) \<le> LLONG_MAX"
    and b: "literal_token b" "int (decimal 0 b) \<le> LLONG_MAX"
    and c: "literal_token c" "int (decimal 0 c) \<le> LLONG_MAX"
  shows "SyntaxTree cast (a @ ''&'' @ b @ ''|'' @ c)
           = Inr (OrNode (AndNode (LabelNode (cast (int (decimal 0 a))))
                                  (LabelNode (cast (int (decimal 0 b)))))
                         (LabelNode (cast (int (decimal 0 c)))))"
proof -
  let ?toks = "[a, ''&'', b, ''|'', c]"
  have shape: "well_tokenized ?toks"
    using a(1) b(1) c(1)
    by (simp add: well_tokenized_def operator_token_def operator_strings_not_literal)
  have "strip_blanks (a @ ''&'' @ b @ ''|'' @ c) = concat ?toks"
    using a(1) b(1) c(1)
    by (simp add: strip_blanks_append strip_blanks_token strip_blanks_Cons is_blank_def)
  then have parsed: "parse_logic_expression (a @ ''&'' @ b @ ''|'' @ c) = Inr ?toks"
    using shape by (rule parse_stripped)
  have "convert_loop ?toks [] [] = convert_loop [''&'', b, ''|'', c] ([] @ [a]) []"
    using a(1) by (rule convert_loop_literal)
  also have "\<dots> = convert_loop [b, ''|'', c] [a] [''&'']"
    using convert_loop_and [of "[]" "[]" "[b, ''|'', c]" "[a]"] by (simp add: top_below_def)
  also have "\<dots> = convert_loop [''|'', c] ([a] @ [b]) [''&'']"
    using b(1) by (rule convert_loop_literal)
  also have "\<dots> = convert_loop [c] [a, b, ''&''] [''|'']"
    using convert_loop_or [of "[''&'']" "[]" "[c]" "[a, b]"] by (simp add: top_below_def)
  also have "\<dots> = convert_loop [] ([a, b, ''&''] @ [c]) [''|'']"
    using c(1) by (rule convert_loop_literal)
  finally have run: "convert_loop ?toks [] [] = Inr ([a, b, ''&'', c], [''|''])"
    by simp
  from builds_or [OF builds_and [OF builds_literal [OF a] builds_literal [OF b]] builds_literal [OF c]]
  have "builds cast ([a, b, ''&'', c] @ [''|''])
          (OrNode (AndNode (LabelNode (cast (int (decimal 0 a)))) (LabelNode (cast (int (decimal 0 b)))))
             (LabelNode (cast (int (decimal 0 c)))))"
    by simp
  with parsed run show ?thesis
    by (rule SyntaxTree_from_run)
qed

text \<open>
  C1. In an expression with one \<open>|\<close> and one \<open>&\<close> over any three literals that are values of
  \<open>long long\<close>, the \<open>&\<close> takes its two neighbours first, whichever operator comes first:
  \<open>a|b&c\<close> is compiled to the tree of \<open>a|(b&c)\<close> and \<open>a&b|c\<close> to the tree of \<open>(a&b)|c\<close>, and
  \<open>check\<close> evaluates them so. In particular \<open>1|2&3\<close> is the tree of \<open>1|(2&3)\<close>; with 32-bit
  unsigned labels, \<open>check\<close> accepts the labels 2, 3 and rejects the single label 2.
\<close>

theorem or_and_precedence:
  assumes "literal_token a" and "int (decimal 0 a) \<le> LLONG_MAX"
    and "literal_token b" and "int (decimal 0 b) \<le> LLONG_MAX"
    and "literal_token c" and "int (decimal 0 c) \<le> LLONG_MAX"
  shows "SyntaxTree cast (a @ ''|'' @ b @ ''&'' @ c)
           = Inr (OrNode (LabelNode (cast (int (decimal 0 a))))
                   (AndNode (LabelNode (cast (int (decimal 0 b))))
                            (LabelNode (cast (int (decimal 0 c))))))
       \<and> SyntaxTree cast (a @ ''&'' @ b @ ''|'' @ c)
           = Inr (OrNode (AndNode (LabelNode (cast (int (decimal 0 a))))
                                  (LabelNode (cast (int (decimal 0 b)))))
                         (LabelNode (cast (int (decimal 0 c)))))
       \<and> compile_check cast (a @ ''|'' @ b @ ''&'' @ c) labels
           = Inr (cast (int (decimal 0 a)) \<in> set labels
                  \<or> (cast (int (decimal 0 b)) \<in> set labels \<and> cast (int (decimal 0 c)) \<in> set labels))
       \<and> compile_check cast (a @ ''&'' @ b @ ''|'' @ c) labels
           = Inr ((cast (int (decimal 0 a)) \<in> set labels \<and> cast (int (decimal 0 b)) \<in> set labels)
                  \<or> cast (int (decimal 0 c)) \<in> set labels)
       \<and> SyntaxTree cast ''1|2&3''
           = Inr (OrNode (LabelNode (cast 1)) (AndNode (LabelNode (cast 2)) (LabelNode (cast 3))))
       \<and> compile_check (unsigned_cast :: int \<Rightarrow> 32 word) ''1|2&3'' [2, 3] = Inr True
       \<and> compile_check (unsigned_cast :: int \<Rightarrow> 32 word) ''1|2&3'' [2] = Inr False"
proof -
  note first = or_then_and_compiles [OF assms, of cast]
  note second = and_then_or_compiles [OF assms, of cast]
  have "compile_check cast (a @ ''|'' @ b @ ''&'' @ c) labels
           = Inr (cast (int (decimal 0 a)) \<in> set labels
                  \<or> (cast (int (decimal 0 b)) \<in> set labels \<and> cast (int (decimal 0 c)) \<in> set labels))"
    unfolding compile_check_def first by (simp add: std_find_end_iff)
  moreover have "compile_check cast (a @ ''&'' @ b @ ''|'' @ c) labels
           = Inr ((cast (int (decimal 0 a)) \<in> set labels \<and> cast (int (decimal 0 b)) \<in> set labels)
                  \<or> cast (int (decimal 0 c)) \<in> set labels)"
    unfolding compile_check_def second by (auto simp: std_find_end_iff)
  moreover have "SyntaxTree cast ''1|2&3''
           = Inr (OrNode (LabelNode (cast 1)) (AndNode (LabelNode (cast 2)) (LabelNode (cast 3))))"
    by (simp add: eval_defs)
  moreover have "compile_check (unsigned_cast :: int \<Rightarrow> 32 word) ''1|2&3'' [2, 3] = Inr True"
    by (simp add: eval_defs unsigned_cast_def)
  moreover have "compile_check (unsigned_cast :: int \<Rightarrow> 32 word) ''1|2&3'' [2] = Inr False"
    by (simp add: eval_defs unsigned_cast_def)
  ultimately show ?thesis
    using first second by blast
qed

theorem or_and_precedence_witness:
  "SyntaxTree (unsigned_cast :: int \<Rightarrow> 32 word) ''10|2&3''
     = Inr (OrNode (LabelNode (unsigned_cast 10))
             (AndNode (LabelNode (unsigned_cast 2)) (LabelNode (unsigned_cast 3))))
   \<and> SyntaxTree (unsigned_cast :: int \<Rightarrow> 32 word) ''10&2|3''
     = Inr (OrNode (AndNode (LabelNode (unsigned_cast 10)) (LabelNode (unsigned_cast 2)))
             (LabelNode (unsigned_cast 3)))
   \<and> compile_check (unsigned_cast :: int \<Rightarrow> 32 word) ''10&2|3'' [10]
     = Inr (((unsigned_cast 10 :: 32 word) \<in> set [10] \<and> (unsigned_cast 2 :: 32 word) \<in> set [10])
            \<or> (unsigned_cast 3 :: 32 word) \<in> set [10])"
proof -
  have lit: "literal_token ''10''" "literal_token ''2''" "literal_token ''3''"
    by (simp_all add: literal_token_def is_digit_def)
  have range: "int (decimal 0 ''10'') \<le> LLONG_MAX" "int (decimal 0 ''2'') \<le> LLONG_MAX"
    "int (decimal 0 ''3'') \<le> LLONG_MAX"
    by (simp_all add: LLONG_MAX_def)
  have val: "int (decimal 0 ''10'') = 10" "int (decimal 0 ''2'') = 2" "int (decimal 0 ''3'') = 3"
    by simp_all
  from or_and_precedence [OF lit(1) range(1) lit(2) range(2) lit(3) range(3),
      of "unsigned_cast :: int \<Rightarrow> 32 word" "[10]"]
  show ?thesis
    unfolding val by simp
qed

section \<open>De Morgan and repeated negation\<close>

text \<open>
  C6. With the factors \<open>A = 2\<close> and \<open>B = !3\<close> both texts are compiled, but to trees that
  disagree on the labels \<open>[2]\<close>: \<open>!(2&!3)\<close> is false there and \<open>!2|!!3\<close> is true, because
  the second \<open>!\<close> of \<open>!!3\<close> pops the first one, which then negates \<open>!2\<close> again. With
  \<open>A = !1\<close> the text \<open>!!1|!2\<close> is not compiled at all: its postfix form starts with \<open>!\<close>.
\<close>

theorem de_morgan_broken_by_repeated_negation:
  "SyntaxTree cast ''!(2&!3)''
     = Inr (NotNode (AndNode (LabelNode (cast 2)) (NotNode (LabelNode (cast 3)))))
   \<and> convert2rpn [''!'', ''2'', ''|'', ''!'', ''!'', ''3'']
       = Inr [''2'', ''!'', ''!'', ''3'', ''!'', ''|'']
   \<and> SyntaxTree cast ''!2|!!3''
     = Inr (OrNode (NotNode (NotNode (LabelNode (cast 2)))) (NotNode (LabelNode (cast 3))))
   \<and> compile_check (unsigned_cast :: int \<Rightarrow> 32 word) ''!(2&!3)'' [2] = Inr False
   \<and> compile_check (unsigned_cast :: int \<Rightarrow> 32 word) ''!2|!!3'' [2] = Inr True
   \<and> SyntaxTree cast ''!(!1&2)''
     = Inr (NotNode (AndNode (NotNode (LabelNode (cast 1))) (LabelNode (cast 2))))
   \<and> SyntaxTree cast ''!!1|!2'' = Inl Undefined_behaviour"
  by (simp add: eval_defs unsigned_cast_def)

section \<open>Blanks inside a literal\<close>

text \<open>
  C10. On \<open>1 2\<close> the tokenizer returns the single token \<open>12\<close>, which is no run of
  consecutive characters of the input: a blank is skipped without the literal in progress
  being pushed, whereas an operator character pushes it first. The constructor then builds
  the leaf for label 12.
\<close>

theorem blank_does_not_end_literal:
  "parse_logic_expression ''1 2'' = Inr [''12'']
   \<and> \<not> (\<exists>before after. ''1 2'' = before @ ''12'' @ after)
   \<and> parse_logic_expression ''1|2'' = Inr [''1'', ''|'', ''2'']
   \<and> SyntaxTree cast ''1 2'' = Inr (LabelNode (cast 12))"
proof -
  have "''1 2'' \<noteq> before @ ''12'' @ after" for before after
  proof (cases before)
    case Nil
    then show ?thesis by simp
  next
    case (Cons x xs)
    then show ?thesis by (cases xs) simp_all
  qed
  then show ?thesis
    by (simp add: eval_defs)
qed

end
